theory Spec2Isabelle
  imports
    Main
    "HOL-Library.Char_ord"
    "HOL-Library.List_Lexorder"
    "HOL-Library.Multiset"
    "HOL-Library.Sublist"
begin

section \<open>Values, records and errors\<close>

text \<open>
  An issue is a Python dictionary decoded from JSON. The fields the pipeline reads
  (\<open>id\<close>, \<open>created_at\<close>, \<open>resolved_at\<close>, \<open>last_seen_at\<close>, \<open>tstamp\<close>) hold either
  \<open>None\<close> or a string, so a value is one of the two. Strings are byte strings
  (the package declares Python 2.7) and are compared bytewise: the order of
  \<open>char list\<close> is the lexicographic one over the order of character codes.
\<close>

datatype jval = JNull | JStr string

type_synonym issue = "string \<rightharpoonup> jval"

text \<open>The exceptions the modelled code can raise; \<open>ExternalError\<close> stands for a failure
  of the Halo API client.\<close>

datatype py_error =
    KeyError string
  | IndexError
  | TypeError
  | AttributeError
  | ValueError
  | ExternalError string

text \<open>\<open>d[k]\<close>: a missing key raises \<open>KeyError\<close>.\<close>

definition getitem :: "issue \<Rightarrow> string \<Rightarrow> py_error + jval" where
  "getitem d k = (case d k of None \<Rightarrow> Inl (KeyError k) | Some v \<Rightarrow> Inr v)"

text \<open>\<open>xs[-1]\<close>: the empty list raises \<open>IndexError\<close>.\<close>

definition py_last :: "'a list \<Rightarrow> py_error + 'a" where
  "py_last xs = (case xs of [] \<Rightarrow> Inl IndexError | _ # _ \<Rightarrow> Inr (last xs))"

text \<open>A list comprehension \<open>[f(x) for x in xs]\<close> whose body can raise: the first
  exception, in list order, ends it.\<close>

fun map_err :: "('a \<Rightarrow> py_error + 'b) \<Rightarrow> 'a list \<Rightarrow> py_error + 'b list" where
  "map_err f [] = Inr []"
| "map_err f (x # xs) =
     (case f x of
        Inl e \<Rightarrow> Inl e
      | Inr y \<Rightarrow> (case map_err f xs of Inl e \<Rightarrow> Inl e | Inr ys \<Rightarrow> Inr (y # ys)))"

text \<open>A list comprehension \<open>[x for x in xs if c(x)]\<close> whose condition can raise.\<close>

fun filter_err :: "('a \<Rightarrow> py_error + bool) \<Rightarrow> 'a list \<Rightarrow> py_error + 'a list" where
  "filter_err c [] = Inr []"
| "filter_err c (x # xs) =
     (case c x of
        Inl e \<Rightarrow> Inl e
      | Inr b \<Rightarrow>
         (case filter_err c xs of
            Inl e \<Rightarrow> Inl e
          | Inr ys \<Rightarrow> Inr (if b then x # ys else ys)))"

section \<open>\<open>time_label_issue\<close>\<close>

definition target_fields :: "string list" where
  "target_fields = [''created_at'', ''resolved_at'', ''last_seen_at'']"

text \<open>
  \<open>[issue[x] for x in fields if issue[x] is not None]\<close>. Every field is looked up, so
  the first absent one raises \<open>KeyError\<close>; the values kept are the strings.
\<close>

fun collect_tstamps :: "string list \<Rightarrow> issue \<Rightarrow> py_error + string list" where
  "collect_tstamps [] issue = Inr []"
| "collect_tstamps (x # xs) issue =
     (case issue x of
        None \<Rightarrow> Inl (KeyError x)
      | Some JNull \<Rightarrow> collect_tstamps xs issue
      | Some (JStr s) \<Rightarrow>
         (case collect_tstamps xs issue of Inl e \<Rightarrow> Inl e | Inr ts \<Rightarrow> Inr (s # ts)))"

text \<open>
  The body of \<open>time_label_issue\<close> over a list of fields: \<open>sorted(tstamps)[-1]\<close> is stored
  under \<open>tstamp\<close> in a copy of the dictionary.
\<close>

definition time_label_fields :: "string list \<Rightarrow> issue \<Rightarrow> py_error + issue" where
  "time_label_fields fields issue =
     (case collect_tstamps fields issue of
        Inl e \<Rightarrow> Inl e
      | Inr tstamps \<Rightarrow>
         (case py_last (sort tstamps) of
            Inl e \<Rightarrow> Inl e
          | Inr newest \<Rightarrow> Inr (issue(''tstamp'' \<mapsto> JStr newest))))"

definition time_label_issue :: "issue \<Rightarrow> py_error + issue" where
  "time_label_issue issue = time_label_fields target_fields issue"

text \<open>
  The same body over a store of dictionary objects, to see what it writes. An object is
  named by its index in the store; \<open>issue.copy()\<close> allocates a new object at the end,
  and the assignment to \<open>retval["tstamp"]\<close> updates that object.
\<close>

type_synonym store = "issue list"

definition time_label_issue_store :: "store \<Rightarrow> nat \<Rightarrow> py_error + (store \<times> nat)" where
  "time_label_issue_store h a =
     (case collect_tstamps target_fields (h ! a) of
        Inl e \<Rightarrow> Inl e
      | Inr tstamps \<Rightarrow>
         (let retval = length h;
              h1 = h @ [h ! a]
          in case py_last (sort tstamps) of
               Inl e \<Rightarrow> Inl e
             | Inr newest \<Rightarrow>
                 Inr (h1[retval := (h1 ! retval)(''tstamp'' \<mapsto> JStr newest)], retval)))"

text \<open>The non-null values among the three timestamp fields.\<close>

definition non_null_tstamps :: "issue \<Rightarrow> string set" where
  "non_null_tstamps issue = {s. \<exists>k \<in> set target_fields. issue k = Some (JStr s)}"


section \<open>\<open>deduplicate_issues\<close>\<close>

text \<open>
  The loop of \<open>deduplicate_issues\<close>, with its two accumulators: the set of ids seen and
  the list built so far. \<open>x["id"]\<close> raises \<open>KeyError\<close> on a record without an id.
\<close>

fun dedup_loop :: "issue list \<Rightarrow> jval set \<Rightarrow> issue list \<Rightarrow> py_error + issue list" where
  "dedup_loop [] all_issue_ids issues_final = Inr issues_final"
| "dedup_loop (x # xs) all_issue_ids issues_final =
     (case x ''id'' of
        None \<Rightarrow> Inl (KeyError ''id'')
      | Some i \<Rightarrow>
         if i \<in> all_issue_ids then dedup_loop xs all_issue_ids issues_final
         else dedup_loop xs (insert i all_issue_ids) (issues_final @ [x]))"

definition deduplicate_issues :: "issue list \<Rightarrow> py_error + issue list" where
  "deduplicate_issues issues = dedup_loop issues {} []"

text \<open>
  What the specification asks of the result, in its own words: the records of the input
  whose id occurs at no earlier position, in input order.
\<close>

definition first_occurrences :: "issue list \<Rightarrow> issue list" where
  "first_occurrences xs =
     map (\<lambda>i. xs ! i)
       (filter (\<lambda>i. \<forall>j < i. (xs ! j) ''id'' \<noteq> (xs ! i) ''id'') [0 ..< length xs])"

section \<open>The time window\<close>

text \<open>
  \<open>targeted_date(sample, target)\<close> is \<open>sample > target\<close>. The sample is the \<open>tstamp\<close> of a
  record and the target the cutoff string. In Python 2, \<open>None\<close> orders below every
  string.
\<close>

definition targeted_date :: "jval \<Rightarrow> string \<Rightarrow> bool" where
  "targeted_date sample target =
     (case sample of JNull \<Rightarrow> False | JStr s \<Rightarrow> if s > target then True else False)"

definition in_window :: "string \<Rightarrow> issue \<Rightarrow> py_error + bool" where
  "in_window timestamp x =
     (case getitem x ''tstamp'' of
        Inl e \<Rightarrow> Inl e
      | Inr t \<Rightarrow> Inr (targeted_date t timestamp))"

definition out_of_window :: "string \<Rightarrow> issue \<Rightarrow> py_error + bool" where
  "out_of_window timestamp x =
     (case getitem x ''tstamp'' of
        Inl e \<Rightarrow> Inl e
      | Inr t \<Rightarrow> Inr (\<not> targeted_date t timestamp))"

text \<open>The two comprehensions of \<open>get_issues_touched_since\<close> over the labelled list.\<close>

definition issues_filtered :: "issue list \<Rightarrow> string \<Rightarrow> py_error + issue list" where
  "issues_filtered labeled timestamp = filter_err (in_window timestamp) labeled"

definition discarded_issues :: "issue list \<Rightarrow> string \<Rightarrow> py_error + issue list" where
  "discarded_issues labeled timestamp = filter_err (out_of_window timestamp) labeled"

section \<open>Logging and results\<close>

datatype level = LDebug | LInfo | LError | LCritical

type_synonym log = "(level \<times> string) list"

text \<open>A method that logs and may raise returns the messages it logged, in order, and
  either the exception or its value.\<close>

type_synonym 'a res = "(level \<times> string) list \<times> (py_error + 'a)"

definition bind_res :: "'a res \<Rightarrow> ('a \<Rightarrow> 'b res) \<Rightarrow> 'b res" where
  "bind_res m f =
     (case m of
        (l, Inl e) \<Rightarrow> (l, Inl e)
      | (l, Inr x) \<Rightarrow> (case f x of (l', r) \<Rightarrow> (l @ l', r)))"

definition lift_res :: "py_error + 'a \<Rightarrow> 'a res" where
  "lift_res r = ([], r)"

definition return_res :: "'a \<Rightarrow> 'a res" where
  "return_res x = ([], Inr x)"

definition logger :: "level \<Rightarrow> string \<Rightarrow> unit res" where
  "logger lvl msg = ([(lvl, msg)], Inr ())"

text \<open>\<open>str\<close> of an integer and of a field value, as \<open>format\<close> prints them.\<close>

fun str_nat :: "nat \<Rightarrow> string" where
  "str_nat n =
     (if n < 10 then [''0123456789'' ! n]
      else str_nat (n div 10) @ [''0123456789'' ! (n mod 10)])"

declare str_nat.simps [simp del]

definition str_int :: "int \<Rightarrow> string" where
  "str_int i = (if i < 0 then CHR ''-'' # str_nat (nat (- i)) else str_nat (nat i))"

definition py_str :: "jval \<Rightarrow> string" where
  "py_str v = (case v of JNull \<Rightarrow> ''None'' | JStr s \<Rightarrow> s)"

section \<open>The Halo API client\<close>

text \<open>
  The keyword arguments of \<open>Issue.list_all\<close> as the code passes them; \<open>critical\<close> is
  absent from the call when \<open>critical_only\<close> is false.
\<close>

record issue_query =
  status :: string
  critical :: "bool option"
  state :: string
  last_seen_at_gte :: "string option"
  resolved_at_gte :: "string option"

text \<open>
  The object \<open>self\<close>. The \<open>cloudpassage\<close> package is not part of the repository, so the
  calls on the objects the constructor builds are fields: \<open>self.issues.list_all\<close>,
  \<open>self.issues.describe\<close> and \<open>self.http_helper.get\<close>. Each may raise.
\<close>

record halo_issues =
  issues_list_all :: "issue_query \<Rightarrow> py_error + issue list"
  issues_describe :: "jval \<Rightarrow> py_error + issue"
  http_helper_get :: "string \<Rightarrow> py_error + issue"
  describe_issues_threads :: int

section \<open>\<open>get_issues_touched_since\<close>\<close>

definition updated_query :: "string \<Rightarrow> bool \<Rightarrow> issue_query" where
  "updated_query timestamp critical_only =
     \<lparr>status = ''active'',
      critical = (if critical_only then Some True else None),
      state = ''active,inactive,missing,retired'',
      last_seen_at_gte = Some timestamp,
      resolved_at_gte = None\<rparr>"

definition resolved_query :: "string \<Rightarrow> bool \<Rightarrow> issue_query" where
  "resolved_query timestamp critical_only =
     \<lparr>status = ''resolved'',
      critical = (if critical_only then Some True else None),
      state = ''active,inactive,missing,retired'',
      last_seen_at_gte = None,
      resolved_at_gte = Some timestamp\<rparr>"

text \<open>The loop that traces every discarded record.\<close>

fun log_discarded :: "issue list \<Rightarrow> unit res" where
  "log_discarded [] = return_res ()"
| "log_discarded (d_i # ds) =
     bind_res (lift_res (getitem d_i ''id'')) (\<lambda>i.
     bind_res (lift_res (getitem d_i ''tstamp'')) (\<lambda>t.
     bind_res (logger LDebug
        (''Issue out of tmie range (discarding): ID: '' @ py_str i @ '' Timestamp: '' @ py_str t))
       (\<lambda>_. log_discarded ds)))"

definition get_issues_touched_since :: "halo_issues \<Rightarrow> string \<Rightarrow> bool \<Rightarrow> issue list res" where
  "get_issues_touched_since self timestamp critical_only =
     bind_res (lift_res (issues_list_all self (updated_query timestamp critical_only))) (\<lambda>updated.
     bind_res (lift_res (issues_list_all self (resolved_query timestamp critical_only))) (\<lambda>resolved.
     bind_res (logger LInfo
        (''Active issues: '' @ str_nat (length updated) @ '' Resolved issues: ''
           @ str_nat (length resolved) @ ''.'')) (\<lambda>_.
     let all_issues = resolved @ updated in
     bind_res (lift_res (map_err time_label_issue all_issues)) (\<lambda>labeled.
     bind_res (lift_res (issues_filtered labeled timestamp)) (\<lambda>filtered.
     bind_res (lift_res (discarded_issues labeled timestamp)) (\<lambda>discarded.
     let bad = int (length labeled) - int (length filtered) in
     bind_res (if bad \<noteq> 0
               then logger LInfo (''Discarding '' @ str_int bad @ '' issues outside of time range'')
               else return_res ()) (\<lambda>_.
     bind_res (log_discarded discarded) (\<lambda>_.
     lift_res (deduplicate_issues filtered)))))))))"

section \<open>\<open>describe_all_issues\<close>\<close>

definition get_issue_full :: "halo_issues \<Rightarrow> jval \<Rightarrow> py_error + issue" where
  "get_issue_full self issue_id = issues_describe self issue_id"

text \<open>\<open>ThreadPool(n)\<close> refuses a size below one.\<close>

definition thread_pool :: "int \<Rightarrow> py_error + unit" where
  "thread_pool processes = (if processes < 1 then Inl ValueError else Inr ())"

text \<open>
  The ids are collected in a Python set and the set is listed: the distinct ids, in an
  order the code does not choose. The order is the parameter \<open>set_order\<close>, a rearrangement
  of the distinct ids. \<open>pool.map\<close> returns the results in the order of its argument and
  re-raises a worker's exception; the model takes the first in list order.
\<close>

definition describe_all_issues ::
  "halo_issues \<Rightarrow> (jval list \<Rightarrow> jval list) \<Rightarrow> string \<Rightarrow> bool \<Rightarrow> issue list res" where
  "describe_all_issues self set_order timestamp critical_only =
     bind_res (get_issues_touched_since self timestamp critical_only) (\<lambda>touched.
     bind_res (lift_res (map_err (\<lambda>x. getitem x ''id'') touched)) (\<lambda>ids.
     let all_issue_ids = set_order (remdups ids) in
     bind_res (logger LDebug
        (''Describing all Halo issues. Concurrency: ''
           @ str_int (describe_issues_threads self))) (\<lambda>_.
     bind_res (lift_res (thread_pool (describe_issues_threads self))) (\<lambda>_.
     bind_res (lift_res (map_err (get_issue_full self) all_issue_ids)) (\<lambda>results.
     lift_res (map_err time_label_issue results))))))"

section \<open>Strings and regular expressions\<close>

text \<open>\<open>sub in s\<close> on strings.\<close>

fun str_contains :: "string \<Rightarrow> string \<Rightarrow> bool" where
  "str_contains sub [] = (sub = [])"
| "str_contains sub (c # cs) = (prefix sub (c # cs) \<or> str_contains sub cs)"

text \<open>\<open>s.split(c)\<close> for a one-character separator: never the empty list.\<close>

fun str_split :: "char \<Rightarrow> string \<Rightarrow> string list" where
  "str_split sep [] = [[]]"
| "str_split sep (c # cs) =
     (if c = sep then [] # str_split sep cs
      else (case str_split sep cs of
              [] \<Rightarrow> [[c]]
            | p # ps \<Rightarrow> (c # p) # ps))"

text \<open>
  The character classes of the two patterns, on byte strings without flags:
  \<open>[A-Za-z0-9]\<close>, \<open>\w\<close>, \<open>\d\<close>, and \<open>.\<close>, which is every character but the newline.
\<close>

definition is_alnum :: "char \<Rightarrow> bool" where
  "is_alnum c \<longleftrightarrow>
     (CHR ''A'' \<le> c \<and> c \<le> CHR ''Z'') \<or> (CHR ''a'' \<le> c \<and> c \<le> CHR ''z'')
       \<or> (CHR ''0'' \<le> c \<and> c \<le> CHR ''9'')"

definition is_word :: "char \<Rightarrow> bool" where
  "is_word c \<longleftrightarrow> is_alnum c \<or> c = CHR ''_''"

definition is_digit :: "char \<Rightarrow> bool" where
  "is_digit c \<longleftrightarrow> CHR ''0'' \<le> c \<and> c \<le> CHR ''9''"

definition is_dot :: "char \<Rightarrow> bool" where
  "is_dot c \<longleftrightarrow> c \<noteq> CHR 0x0A"

text \<open>
  A pattern is a sequence of items: a literal, one character of a class, a class under
  \<open>+\<close> or \<open>*\<close>, the anchors \<open>^\<close> and \<open>$\<close>, and the two ends of a named group.
\<close>

datatype rx =
    Lit string
  | One "char \<Rightarrow> bool"
  | OneOrMore "char \<Rightarrow> bool"
  | ZeroOrMore "char \<Rightarrow> bool"
  | Bol
  | Eol
  | GOpen string
  | GClose string

text \<open>A position of the matcher: the offset in the subject, what is left of it, the
  groups that are open (with the text left when they opened) and the groups matched.\<close>

record mstate =
  pos :: nat
  rest :: string
  opened :: "(string \<times> string) list"
  groups :: "(string \<times> string) list"

definition advance :: "nat \<Rightarrow> mstate \<Rightarrow> mstate" where
  "advance k m = m\<lparr>pos := pos m + k, rest := drop k (rest m)\<rparr>"

text \<open>
  All the ways a pattern matches from a position, in the order a backtracking matcher
  tries them: \<open>+\<close> and \<open>*\<close> are greedy, so the longest run comes first. \<open>$\<close> matches at the
  end of the subject and before a newline that ends it.
\<close>

fun rx_run :: "rx list \<Rightarrow> mstate \<Rightarrow> mstate list" where
  "rx_run [] m = [m]"
| "rx_run (Lit l # rs) m =
     (if prefix l (rest m) then rx_run rs (advance (length l) m) else [])"
| "rx_run (One p # rs) m =
     (case rest m of
        [] \<Rightarrow> []
      | c # _ \<Rightarrow> if p c then rx_run rs (advance 1 m) else [])"
| "rx_run (OneOrMore p # rs) m =
     concat (map (\<lambda>k. rx_run rs (advance k m))
       (rev [1 ..< Suc (length (takeWhile p (rest m)))]))"
| "rx_run (ZeroOrMore p # rs) m =
     concat (map (\<lambda>k. rx_run rs (advance k m))
       (rev [0 ..< Suc (length (takeWhile p (rest m)))]))"
| "rx_run (Bol # rs) m = (if pos m = 0 then rx_run rs m else [])"
| "rx_run (Eol # rs) m =
     (if rest m = [] \<or> rest m = [CHR 0x0A] then rx_run rs m else [])"
| "rx_run (GOpen g # rs) m = rx_run rs (m\<lparr>opened := (g, rest m) # opened m\<rparr>)"
| "rx_run (GClose g # rs) m =
     (case map_of (opened m) g of
        None \<Rightarrow> rx_run rs m
      | Some s \<Rightarrow>
          rx_run rs (m\<lparr>groups := (g, take (length s - length (rest m)) s) # groups m\<rparr>))"

text \<open>\<open>re.match\<close> tries the start of the subject only; \<open>re.search\<close> tries every offset
  from the left and takes the first that matches.\<close>

definition re_match :: "rx list \<Rightarrow> string \<Rightarrow> mstate option" where
  "re_match rs s =
     (case rx_run rs \<lparr>pos = 0, rest = s, opened = [], groups = []\<rparr> of
        [] \<Rightarrow> None
      | m # _ \<Rightarrow> Some m)"

fun search_from :: "rx list \<Rightarrow> nat \<Rightarrow> string \<Rightarrow> mstate option" where
  "search_from rs i [] =
     (case rx_run rs \<lparr>pos = i, rest = [], opened = [], groups = []\<rparr> of
        [] \<Rightarrow> None
      | m # _ \<Rightarrow> Some m)"
| "search_from rs i (c # cs) =
     (case rx_run rs \<lparr>pos = i, rest = c # cs, opened = [], groups = []\<rparr> of
        [] \<Rightarrow> search_from rs (Suc i) cs
      | m # _ \<Rightarrow> Some m)"

definition re_search :: "rx list \<Rightarrow> string \<Rightarrow> mstate option" where
  "re_search rs s = search_from rs 0 s"

text \<open>\<open>result.group(name)\<close>: \<open>None\<close> for a group that took no part in the match.\<close>

definition group :: "mstate \<Rightarrow> string \<Rightarrow> jval" where
  "group m name = (case map_of (groups m) name of None \<Rightarrow> JNull | Some s \<Rightarrow> JStr s)"

section \<open>\<open>describe_finding\<close>\<close>

text \<open>\<open>^https://\w+\.cloudpassage\.com/v\d/scans/[A-Za-z0-9]+/findings/[A-Za-z0-9]+$\<close>\<close>

definition rx_strict :: "rx list" where
  "rx_strict =
     [Bol, Lit ''https://'', OneOrMore is_word, Lit ''.cloudpassage.com/v'', One is_digit,
      Lit ''/scans/'', OneOrMore is_alnum, Lit ''/findings/'', OneOrMore is_alnum, Eol]"

text \<open>\<open>.*/scans/(?P<scan_id>[A-Za-z0-9]+)/findings/(?P<finding_id>[A-Za-z0-9]+)\<close>\<close>

definition rxtractor :: "rx list" where
  "rxtractor =
     [ZeroOrMore is_dot, Lit ''/scans/'',
      GOpen ''scan_id'', OneOrMore is_alnum, GClose ''scan_id'',
      Lit ''/findings/'',
      GOpen ''finding_id'', OneOrMore is_alnum, GClose ''finding_id'']"

text \<open>\<open>parse_finding_url\<close> returns the pair of ids, or logs an error and returns
  \<open>None\<close>.\<close>

definition parse_finding_url :: "string \<Rightarrow> (jval \<times> jval) option res" where
  "parse_finding_url url =
     (if re_match rx_strict url = None
      then bind_res (logger LError (''Unable to parse finding URL: '' @ url))
             (\<lambda>_. return_res None)
      else (case re_search rxtractor url of
              None \<Rightarrow> lift_res (Inl AttributeError)
            | Some result \<Rightarrow>
                return_res (Some (group result ''scan_id'', group result ''finding_id''))))"

definition get_finding :: "halo_issues \<Rightarrow> jval \<Rightarrow> jval \<Rightarrow> py_error + issue" where
  "get_finding self scan_id finding_id =
     http_helper_get self (''/v1/scans/'' @ py_str scan_id @ ''/findings/'' @ py_str finding_id)"

text \<open>
  \<open>cloudpassage.http_helper(self.session)\<close>, the call of line 74. In the package,
  \<open>http_helper\<close> is the module that defines the class \<open>HttpHelper\<close>, the one the
  constructor calls on line 27. A module is not callable: the call raises \<open>TypeError\<close>
  and builds no helper.
\<close>

definition cloudpassage_http_helper ::
  "halo_issues \<Rightarrow> py_error + (string \<Rightarrow> py_error + issue)" where
  "cloudpassage_http_helper self = Inl TypeError"

text \<open>
  \<open>describe_finding\<close>. In the first branch the value of \<open>parse_finding_url\<close> is unpacked
  into two names, which raises \<open>TypeError\<close> when it is \<open>None\<close>. In the second branch the
  event id is split off, then line 74 is run, then \<open>get\<close> is called on its result.
\<close>

definition describe_finding :: "halo_issues \<Rightarrow> string \<Rightarrow> issue option res" where
  "describe_finding self finding_url =
     (if str_contains ''/scans/'' finding_url then
        bind_res (parse_finding_url finding_url) (\<lambda>parsed.
          case parsed of
            None \<Rightarrow> lift_res (Inl TypeError)
          | Some (scan_id, finding_id) \<Rightarrow>
              bind_res (lift_res (get_finding self scan_id finding_id)) (\<lambda>result.
              return_res (Some result)))
      else if str_contains ''/events/'' finding_url then
        bind_res (lift_res (py_last (str_split CHR ''/'' finding_url))) (\<lambda>event_id.
        bind_res (lift_res (cloudpassage_http_helper self)) (\<lambda>h_h.
        bind_res (lift_res (h_h (''/v1/events/'' @ event_id))) (\<lambda>result.
        return_res (Some result))))
      else
        bind_res (logger LError (''Unable to determine finding type: '' @ finding_url)) (\<lambda>_.
        return_res None))"

section \<open>Example records\<close>

text \<open>A record with an id and the three timestamp fields, for the concrete cases.\<close>

definition mk_issue :: "string \<Rightarrow> jval \<Rightarrow> jval \<Rightarrow> jval \<Rightarrow> issue" where
  "mk_issue i c r l =
     [''id'' \<mapsto> JStr i, ''created_at'' \<mapsto> c, ''resolved_at'' \<mapsto> r, ''last_seen_at'' \<mapsto> l]"

section \<open>Auxiliary notions for the proofs\<close>

text \<open>The string held by a field, if it holds one.\<close>

definition str_of :: "jval option \<Rightarrow> string option" where
  "str_of v = (case v of Some (JStr s) \<Rightarrow> Some s | _ \<Rightarrow> None)"

text \<open>The records that \<open>dedup_loop\<close> appends to its list, given the ids already seen.\<close>

fun keep_new :: "jval set \<Rightarrow> issue list \<Rightarrow> issue list" where
  "keep_new seen [] = []"
| "keep_new seen (x # xs) =
     (case x ''id'' of
        None \<Rightarrow> []
      | Some i \<Rightarrow> if i \<in> seen then keep_new seen xs else x # keep_new (insert i seen) xs)"

text \<open>Whether the \<open>tstamp\<close> of a labelled record is a string strictly above the cutoff.\<close>

definition tstamp_newer :: "string \<Rightarrow> issue \<Rightarrow> bool" where
  "tstamp_newer cutoff x = (case x ''tstamp'' of Some (JStr s) \<Rightarrow> cutoff < s | _ \<Rightarrow> False)"

text \<open>
  A valid record of the data model has the three timestamp fields, one of them not
  null. Its derived timestamp is the maximum of the non-null ones, and \<open>label_of\<close> is the
  record with that timestamp stored under \<open>tstamp\<close>.
\<close>

definition valid_issue :: "issue \<Rightarrow> bool" where
  "valid_issue x \<longleftrightarrow>
     (\<forall>k \<in> set target_fields. x k \<noteq> None) \<and> (\<exists>k \<in> set target_fields. \<exists>s. x k = Some (JStr s))"

definition derived_tstamp :: "issue \<Rightarrow> string" where
  "derived_tstamp x = Max (non_null_tstamps x)"

definition label_of :: "issue \<Rightarrow> issue" where
  "label_of x = x(''tstamp'' \<mapsto> JStr (derived_tstamp x))"

text \<open>A record is stale for a cutoff when its derived timestamp is not strictly newer.\<close>

definition stale :: "string \<Rightarrow> issue \<Rightarrow> bool" where
  "stale cutoff x \<longleftrightarrow> \<not> cutoff < derived_tstamp x"

text \<open>The ids of a list of records.\<close>

definition ids_of :: "issue list \<Rightarrow> jval option set" where
  "ids_of xs = (\<lambda>x. x ''id'') ` set xs"

section \<open>A mocked record source\<close>

text \<open>
  A source for the end-to-end cases: the query for active issues answers with one list,
  the query for resolved issues with another, and every string id is fetched as a full
  record with that id.
\<close>

definition mock_describe :: "jval \<Rightarrow> py_error + issue" where
  "mock_describe i =
     (case i of
        JNull \<Rightarrow> Inl (ExternalError ''not found'')
      | JStr s \<Rightarrow> Inr (mk_issue s (JStr ''2020-01-01'') JNull (JStr ''2020-06-01'')))"

definition mock_source :: "issue list \<Rightarrow> issue list \<Rightarrow> halo_issues" where
  "mock_source updated resolved =
     \<lparr>issues_list_all = (\<lambda>q. if status q = ''active'' then Inr updated else Inr resolved),
      issues_describe = mock_describe,
      http_helper_get = (\<lambda>path. Inl (ExternalError path)),
      describe_issues_threads = 5\<rparr>"

text \<open>Three active and two resolved records for the cutoff \<open>2020-02-01\<close>: the id \<open>A\<close> is in
  both lists, and the record \<open>C\<close> is older than the cutoff.\<close>

definition example_updated :: "issue list" where
  "example_updated =
     [mk_issue ''A'' (JStr ''2020-01-01'') JNull (JStr ''2020-03-01''),
      mk_issue ''B'' (JStr ''2020-01-05'') JNull (JStr ''2020-02-10''),
      mk_issue ''C'' (JStr ''2020-01-10'') JNull (JStr ''2020-01-20'')]"

definition example_resolved :: "issue list" where
  "example_resolved =
     [mk_issue ''A'' (JStr ''2020-01-01'') JNull (JStr ''2020-03-01''),
      mk_issue ''D'' (JStr ''2020-01-02'') (JStr ''2020-02-20'') (JStr ''2020-02-15'')]"

text \<open>The same shape, but the one record that is not newer than the cutoff is the active
  copy of \<open>A\<close>, last seen exactly at the cutoff; its resolved copy is newer.\<close>

definition boundary_updated :: "issue list" where
  "boundary_updated =
     [mk_issue ''A'' (JStr ''2020-01-01'') JNull (JStr ''2020-02-01''),
      mk_issue ''B'' (JStr ''2020-01-05'') JNull (JStr ''2020-02-10''),
      mk_issue ''C'' (JStr ''2020-01-10'') JNull (JStr ''2020-02-12'')]"

definition boundary_resolved :: "issue list" where
  "boundary_resolved =
     [mk_issue ''A'' (JStr ''2020-01-01'') (JStr ''2020-02-03'') (JStr ''2020-02-01''),
      mk_issue ''D'' (JStr ''2020-01-02'') (JStr ''2020-02-20'') (JStr ''2020-02-15'')]"

section \<open>Labelling: the newest timestamp\<close>

lemma collect_tstamps_KeyError:
  "\<exists>k \<in> set fs. issue k = None \<Longrightarrow>
   \<exists>k \<in> set fs. issue k = None \<and> collect_tstamps fs issue = Inl (KeyError k)"
proof (induction fs)
  case Nil
  then show ?case by simp
next
  case (Cons f fs)
  show ?case
  proof (cases "issue f")
    case None
    then show ?thesis by simp
  next
    case (Some v)
    with Cons.prems have "\<exists>k \<in> set fs. issue k = None" by auto
    from Cons.IH [OF this] obtain k where k: "k \<in> set fs" "issue k = None"
      "collect_tstamps fs issue = Inl (KeyError k)" by blast
    with Some show ?thesis by (cases v) auto
  qed
qed

lemma collect_tstamps_present:
  "\<forall>k \<in> set fs. issue k \<noteq> None \<Longrightarrow>
   collect_tstamps fs issue = Inr (List.map_filter (\<lambda>k. str_of (issue k)) fs)"
proof (induction fs)
  case Nil
  then show ?case by (simp add: List.map_filter_simps)
next
  case (Cons f fs)
  then obtain v where v: "issue f = Some v" by auto
  from Cons have IH: "collect_tstamps fs issue = Inr (List.map_filter (\<lambda>k. str_of (issue k)) fs)"
    by simp
  show ?case using v IH by (cases v) (simp_all add: List.map_filter_simps str_of_def)
qed

lemma set_map_filter_str_of:
  "set (List.map_filter (\<lambda>k. str_of (issue k)) fs) = {s. \<exists>k \<in> set fs. issue k = Some (JStr s)}"
  by (induction fs) (auto simp: List.map_filter_simps str_of_def split: option.splits jval.splits)

lemma mset_map_filter_cong:
  "mset fs = mset gs \<Longrightarrow> mset (List.map_filter f fs) = mset (List.map_filter f gs)"
  by (metis List.map_filter_def mset_filter mset_map)

lemma sorted_last_Max:
  fixes ys :: "'a::linorder list"
  shows "sorted ys \<Longrightarrow> ys \<noteq> [] \<Longrightarrow> last ys = Max (set ys)"
proof (induction ys)
  case Nil
  then show ?case by simp
next
  case (Cons y ys)
  show ?case
  proof (cases "ys = []")
    case True
    then show ?thesis by simp
  next
    case False
    with Cons have "last ys = Max (set ys)" by simp
    moreover from Cons.prems have "\<forall>z \<in> set ys. y \<le> z" by simp
    moreover from False obtain z where "z \<in> set ys" by (cases ys) auto
    ultimately have "y \<le> z" "z \<le> Max (set ys)" by simp_all
    then have "y \<le> Max (set ys)" by (rule order_trans)
    from \<open>last ys = Max (set ys)\<close> this
    show ?thesis using False by (simp add: max_def)
  qed
qed

lemma py_last_sort:
  fixes xs :: "'a::linorder list"
  shows "xs \<noteq> [] \<Longrightarrow> py_last (sort xs) = Inr (Max (set xs))"
proof -
  assume ne: "xs \<noteq> []"
  then have "sort xs \<noteq> []" by (metis length_sort length_0_conv)
  then have "last (sort xs) = Max (set (sort xs))" by (simp add: sorted_last_Max)
  then have "last (sort xs) = Max (set xs)" by simp
  with \<open>sort xs \<noteq> []\<close> show ?thesis
    by (cases "sort xs") (simp_all add: py_last_def del: last.simps)
qed

lemma sort_perm_eq:
  fixes xs :: "'a::linorder list"
  shows "mset xs = mset ys \<Longrightarrow> sort xs = sort ys"
  by (metis mset_sort properties_for_sort sorted_sort)

lemma collect_tstamps_nonempty:
  assumes present: "\<forall>k \<in> set fs. issue k \<noteq> None"
    and some: "\<exists>k \<in> set fs. \<exists>s. issue k = Some (JStr s)"
  shows "List.map_filter (\<lambda>k. str_of (issue k)) fs \<noteq> []"
proof -
  from some have "set (List.map_filter (\<lambda>k. str_of (issue k)) fs) \<noteq> {}"
    unfolding set_map_filter_str_of by blast
  then show ?thesis by auto
qed

lemma time_label_fields_value:
  assumes present: "\<forall>k \<in> set fs. issue k \<noteq> None"
    and some: "\<exists>k \<in> set fs. \<exists>s. issue k = Some (JStr s)"
  shows "time_label_fields fs issue =
     Inr (issue(''tstamp'' \<mapsto> JStr (Max {s. \<exists>k \<in> set fs. issue k = Some (JStr s)})))"
proof -
  let ?ts = "List.map_filter (\<lambda>k. str_of (issue k)) fs"
  have "py_last (sort ?ts) = Inr (Max (set ?ts))"
    by (rule py_last_sort) (rule collect_tstamps_nonempty [OF present some])
  then show ?thesis
    by (simp add: time_label_fields_def collect_tstamps_present [OF present]
        set_map_filter_str_of)
qed

lemma time_label_fields_perm:
  assumes perm: "mset fs = mset gs" and present: "\<forall>k \<in> set gs. issue k \<noteq> None"
  shows "time_label_fields fs issue = time_label_fields gs issue"
proof -
  from perm have "set fs = set gs" by (rule mset_eq_setD)
  with present have f: "\<forall>k \<in> set fs. issue k \<noteq> None" by simp
  have "sort (List.map_filter (\<lambda>k. str_of (issue k)) fs) =
      sort (List.map_filter (\<lambda>k. str_of (issue k)) gs)"
    by (rule sort_perm_eq) (rule mset_map_filter_cong [OF perm])
  then show ?thesis
    by (simp add: time_label_fields_def collect_tstamps_present [OF f]
        collect_tstamps_present [OF present])
qed

lemma time_label_issue_store_value:
  assumes "time_label_issue (h ! a) = Inr r"
  shows "time_label_issue_store h a = Inr (h @ [r], length h)"
  using assms
  by (auto simp: time_label_issue_def time_label_fields_def time_label_issue_store_def Let_def
      split: sum.splits)

lemma time_label_issue_Inr:
  assumes "time_label_issue issue = Inr r"
  shows "\<exists>s. r = issue(''tstamp'' \<mapsto> JStr s)"
  using assms
  by (auto simp: time_label_issue_def time_label_fields_def split: sum.splits)

text \<open>
  C2. A record whose three timestamp fields \<open>created_at\<close>, \<open>resolved_at\<close> and
  \<open>last_seen_at\<close> are all null cannot be labelled: \<open>time_label_issue\<close> raises. No
  timestamp is collected, and taking the last element of the empty sorted list raises
  \<open>IndexError\<close>; this is the failure the specification calls \<open>MalformedRecordError\<close>.
\<close>

theorem time_label_issue_all_null:
  assumes "issue ''created_at'' = Some JNull"
    and "issue ''resolved_at'' = Some JNull"
    and "issue ''last_seen_at'' = Some JNull"
  shows "time_label_issue issue = Inl IndexError"
  using assms
  by (simp add: time_label_issue_def time_label_fields_def target_fields_def py_last_def)

theorem time_label_issue_all_null_witness:
  "time_label_issue
     (mk_issue ''N'' JNull JNull JNull) = Inl IndexError"
  using time_label_issue_all_null [of "mk_issue ''N'' JNull JNull JNull"]
  by (simp add: mk_issue_def)

text \<open>
  C3. For a record that has the three timestamp fields, at least one of them not null,
  \<open>time_label_issue\<close> returns the record with a \<open>tstamp\<close> field added whose value is the
  lexicographic maximum of the non-null values of the three fields. Collecting the
  fields in any other order gives the same result. On the store, the result is a new
  object: every object that was there, the input among them, is left as it was.
\<close>

theorem time_label_issue_newest:
  assumes "\<forall>k \<in> set target_fields. issue k \<noteq> None"
    and "\<exists>k \<in> set target_fields. \<exists>s. issue k = Some (JStr s)"
  shows "time_label_issue issue =
           Inr (issue(''tstamp'' \<mapsto> JStr (Max (non_null_tstamps issue))))
       \<and> (\<forall>fs. mset fs = mset target_fields \<longrightarrow>
             time_label_fields fs issue = time_label_issue issue)
       \<and> (\<forall>h a. a < length h \<and> h ! a = issue \<longrightarrow>
             time_label_issue_store h a =
               Inr (h @ [issue(''tstamp'' \<mapsto> JStr (Max (non_null_tstamps issue)))], length h))"
proof -
  have v: "time_label_issue issue =
      Inr (issue(''tstamp'' \<mapsto> JStr (Max (non_null_tstamps issue))))"
    unfolding time_label_issue_def non_null_tstamps_def
    by (rule time_label_fields_value [OF assms])
  have p: "\<forall>fs. mset fs = mset target_fields \<longrightarrow>
      time_label_fields fs issue = time_label_issue issue"
    unfolding time_label_issue_def
    using time_label_fields_perm [OF _ assms(1)] by blast
  have s: "\<forall>h a. a < length h \<and> h ! a = issue \<longrightarrow>
      time_label_issue_store h a =
        Inr (h @ [issue(''tstamp'' \<mapsto> JStr (Max (non_null_tstamps issue)))], length h)"
    using v by (auto intro: time_label_issue_store_value)
  from v p s show ?thesis by blast
qed

theorem time_label_issue_newest_witness:
  "time_label_issue (mk_issue ''B'' (JStr ''2020-01-01'') JNull (JStr ''2020-03-01'')) =
     Inr ((mk_issue ''B'' (JStr ''2020-01-01'') JNull (JStr ''2020-03-01''))
            (''tstamp'' \<mapsto> JStr ''2020-03-01''))
   \<and> time_label_fields [''last_seen_at'', ''created_at'', ''resolved_at'']
       (mk_issue ''B'' (JStr ''2020-01-01'') JNull (JStr ''2020-03-01'')) =
     Inr ((mk_issue ''B'' (JStr ''2020-01-01'') JNull (JStr ''2020-03-01''))
            (''tstamp'' \<mapsto> JStr ''2020-03-01''))
   \<and> time_label_issue_store [mk_issue ''B'' (JStr ''2020-01-01'') JNull (JStr ''2020-03-01'')] 0 =
     Inr ([mk_issue ''B'' (JStr ''2020-01-01'') JNull (JStr ''2020-03-01''),
           (mk_issue ''B'' (JStr ''2020-01-01'') JNull (JStr ''2020-03-01''))
             (''tstamp'' \<mapsto> JStr ''2020-03-01'')], 1)"
proof -
  let ?r = "mk_issue ''B'' (JStr ''2020-01-01'') JNull (JStr ''2020-03-01'')"
  have present: "\<forall>k \<in> set target_fields. ?r k \<noteq> None"
    by (simp add: target_fields_def mk_issue_def)
  have some: "\<exists>k \<in> set target_fields. \<exists>s. ?r k = Some (JStr s)"
    by (simp add: target_fields_def mk_issue_def)
  have "non_null_tstamps ?r = {''2020-01-01'', ''2020-03-01''}"
    by (auto simp: non_null_tstamps_def target_fields_def mk_issue_def)
  then have m: "Max (non_null_tstamps ?r) = ''2020-03-01''"
    by simp
  have perm: "mset [''last_seen_at'', ''created_at'', ''resolved_at''] = mset target_fields"
    by (simp add: target_fields_def)
  from time_label_issue_newest [OF present some]
  have a: "time_label_issue ?r = Inr (?r(''tstamp'' \<mapsto> JStr (Max (non_null_tstamps ?r))))"
    and b: "\<forall>fs. mset fs = mset target_fields \<longrightarrow>
      time_label_fields fs ?r = time_label_issue ?r"
    and c: "\<forall>h a. a < length h \<and> h ! a = ?r \<longrightarrow>
      time_label_issue_store h a =
        Inr (h @ [?r(''tstamp'' \<mapsto> JStr (Max (non_null_tstamps ?r)))], length h)"
    by blast+
  from c have "time_label_issue_store [?r] 0 =
      Inr ([?r] @ [?r(''tstamp'' \<mapsto> JStr (Max (non_null_tstamps ?r)))], length [?r])"
    by simp
  then have c': "time_label_issue_store [?r] 0 =
      Inr ([?r, ?r(''tstamp'' \<mapsto> JStr ''2020-03-01'')], 1)"
    using m by simp
  from b perm have "time_label_fields [''last_seen_at'', ''created_at'', ''resolved_at''] ?r =
      time_label_issue ?r" by blast
  with a m c' show ?thesis by simp
qed

text \<open>
  C10. \<open>time_label_issue\<close> looks up each of \<open>created_at\<close>, \<open>resolved_at\<close> and
  \<open>last_seen_at\<close>: for a record in which one of the three keys is absent it raises
  \<open>KeyError\<close> for an absent key, whatever the values of the other fields.
\<close>

theorem time_label_issue_missing_key:
  assumes "\<exists>k \<in> set target_fields. issue k = None"
  shows "\<exists>k \<in> set target_fields. issue k = None \<and> time_label_issue issue = Inl (KeyError k)"
  using collect_tstamps_KeyError [OF assms]
  by (auto simp: time_label_issue_def time_label_fields_def)

theorem time_label_issue_missing_key_witness:
  "time_label_issue
     [''id'' \<mapsto> JStr ''C'', ''created_at'' \<mapsto> JStr ''2020-01-01'',
      ''last_seen_at'' \<mapsto> JStr ''2020-03-01''] = Inl (KeyError ''resolved_at'')"
  using time_label_issue_missing_key
    [of "[''id'' \<mapsto> JStr ''C'', ''created_at'' \<mapsto> JStr ''2020-01-01'',
          ''last_seen_at'' \<mapsto> JStr ''2020-03-01'']"]
  by (auto simp: target_fields_def)

section \<open>Deduplication\<close>

lemma dedup_loop_keep_new:
  "\<forall>x \<in> set xs. x ''id'' \<noteq> None \<Longrightarrow>
   dedup_loop xs seen acc = Inr (acc @ keep_new seen xs)"
  by (induction xs arbitrary: seen acc) auto

lemma keep_new_index:
  "\<forall>x \<in> set xs. x ''id'' \<noteq> None \<Longrightarrow>
   keep_new seen xs =
     map (\<lambda>i. xs ! i)
       (filter (\<lambda>i. (xs ! i) ''id'' \<notin> Some ` seen \<and> (\<forall>j < i. (xs ! j) ''id'' \<noteq> (xs ! i) ''id''))
          [0 ..< length xs])"
proof (induction xs arbitrary: seen)
  case Nil
  then show ?case by simp
next
  case (Cons x xs)
  then obtain i where i: "x ''id'' = Some i" by auto
  let ?P = "\<lambda>k. ((x # xs) ! k) ''id'' \<notin> Some ` seen
      \<and> (\<forall>j < k. ((x # xs) ! j) ''id'' \<noteq> ((x # xs) ! k) ''id'')"
  let ?Q = "\<lambda>S k. (xs ! k) ''id'' \<notin> Some ` S \<and> (\<forall>j < k. (xs ! j) ''id'' \<noteq> (xs ! k) ''id'')"
  have upt: "[0 ..< length (x # xs)] = 0 # map Suc [0 ..< length xs]"
    by (simp add: upt_conv_Cons map_Suc_upt del: upt_Suc)
  have suc: "?P (Suc k) \<longleftrightarrow> ?Q seen k \<and> (xs ! k) ''id'' \<noteq> Some i" for k
    using i by (auto simp: less_Suc_eq_0_disj)
  have IH: "keep_new S xs = map (\<lambda>k. xs ! k) (filter (?Q S) [0 ..< length xs])" for S
    using Cons by simp
  have shift: "map (\<lambda>k. (x # xs) ! k) (map Suc ks) = map (\<lambda>k. xs ! k) ks" for ks
    by simp
  show ?case
  proof (cases "i \<in> seen")
    case True
    then have "?P (Suc k) \<longleftrightarrow> ?Q seen k" for k
      unfolding suc by auto
    then have "filter (?P \<circ> Suc) [0 ..< length xs] = filter (?Q seen) [0 ..< length xs]"
      by (intro filter_cong) (simp_all add: comp_def)
    moreover have "\<not> ?P 0" using True i by simp
    ultimately have "filter ?P [0 ..< length (x # xs)] =
        map Suc (filter (?Q seen) [0 ..< length xs])"
      unfolding upt by (simp add: filter_map del: upt_Suc)
    then show ?thesis
      using True i IH [of seen] by (simp only: keep_new.simps shift) simp
  next
    case False
    then have "?P (Suc k) \<longleftrightarrow> ?Q (insert i seen) k" for k
      unfolding suc by auto
    then have "filter (?P \<circ> Suc) [0 ..< length xs] =
        filter (?Q (insert i seen)) [0 ..< length xs]"
      by (intro filter_cong) (simp_all add: comp_def)
    moreover have "?P 0" using False i by auto
    ultimately have "filter ?P [0 ..< length (x # xs)] =
        0 # map Suc (filter (?Q (insert i seen)) [0 ..< length xs])"
      unfolding upt by (simp add: filter_map del: upt_Suc)
    then show ?thesis
      using False i IH [of "insert i seen"] by (simp only: keep_new.simps shift list.map) simp
  qed
qed

lemma keep_new_subseq: "subseq (keep_new seen xs) xs"
  by (induction xs arbitrary: seen) (auto split: option.splits)

lemma keep_new_subset: "set (keep_new seen xs) \<subseteq> set xs"
  by (induction xs arbitrary: seen) (auto split: option.splits if_splits)

lemma keep_new_ids:
  "\<forall>x \<in> set xs. x ''id'' \<noteq> None \<Longrightarrow>
   (\<lambda>x. x ''id'') ` set (keep_new seen xs) = (\<lambda>x. x ''id'') ` set xs - Some ` seen"
proof (induction xs arbitrary: seen)
  case Nil
  then show ?case by simp
next
  case (Cons x xs)
  then obtain i where i: "x ''id'' = Some i" by auto
  from Cons have IH: "(\<lambda>x. x ''id'') ` set (keep_new S xs) =
      (\<lambda>x. x ''id'') ` set xs - Some ` S" for S
    by simp
  show ?case
  proof (cases "i \<in> seen")
    case True
    then have "keep_new seen (x # xs) = keep_new seen xs" using i by simp
    then show ?thesis using True i IH [of seen] by auto
  next
    case False
    then have "keep_new seen (x # xs) = x # keep_new (insert i seen) xs" using i by simp
    then show ?thesis using False i IH [of "insert i seen"] by auto
  qed
qed

lemma keep_new_distinct:
  "\<forall>x \<in> set xs. x ''id'' \<noteq> None \<Longrightarrow> distinct (map (\<lambda>x. x ''id'') (keep_new seen xs))"
proof (induction xs arbitrary: seen)
  case Nil
  then show ?case by simp
next
  case (Cons x xs)
  then obtain i where i: "x ''id'' = Some i" by auto
  from Cons have all: "\<forall>x \<in> set xs. x ''id'' \<noteq> None" by simp
  have "Some i \<notin> (\<lambda>x. x ''id'') ` set (keep_new (insert i seen) xs)"
    unfolding keep_new_ids [OF all] by simp
  with Cons.IH [OF all] i show ?case by (auto simp del: image_iff)
qed

lemma keep_new_fixed:
  "\<forall>x \<in> set ys. x ''id'' \<noteq> None \<Longrightarrow> distinct (map (\<lambda>x. x ''id'') ys) \<Longrightarrow>
   (\<lambda>x. x ''id'') ` set ys \<inter> Some ` seen = {} \<Longrightarrow> keep_new seen ys = ys"
proof (induction ys arbitrary: seen)
  case Nil
  then show ?case by simp
next
  case (Cons y ys)
  then obtain i where i: "y ''id'' = Some i" by auto
  with Cons.prems have "i \<notin> seen" by auto
  moreover have "keep_new (insert i seen) ys = ys"
  proof (rule Cons.IH)
    show "\<forall>x \<in> set ys. x ''id'' \<noteq> None" using Cons.prems by simp
    show "distinct (map (\<lambda>x. x ''id'') ys)" using Cons.prems by simp
    show "(\<lambda>x. x ''id'') ` set ys \<inter> Some ` insert i seen = {}"
      using Cons.prems i by auto
  qed
  ultimately show ?case using i by simp
qed

lemma first_occurrences_keep_new:
  "\<forall>x \<in> set xs. x ''id'' \<noteq> None \<Longrightarrow> first_occurrences xs = keep_new {} xs"
  unfolding first_occurrences_def by (simp add: keep_new_index)

lemma deduplicate_issues_value:
  assumes "\<forall>x \<in> set xs. x ''id'' \<noteq> None"
  shows "deduplicate_issues xs = Inr (first_occurrences xs)"
  unfolding first_occurrences_keep_new [OF assms] deduplicate_issues_def
    dedup_loop_keep_new [OF assms]
  by simp

lemma first_occurrences_subset:
  "\<forall>x \<in> set xs. x ''id'' \<noteq> None \<Longrightarrow> set (first_occurrences xs) \<subseteq> set xs"
  by (simp add: first_occurrences_keep_new keep_new_subset)

lemma first_occurrences_ids:
  "\<forall>x \<in> set xs. x ''id'' \<noteq> None \<Longrightarrow>
   (\<lambda>x. x ''id'') ` set (first_occurrences xs) = (\<lambda>x. x ''id'') ` set xs"
  by (simp add: first_occurrences_keep_new keep_new_ids)

lemma first_occurrences_distinct:
  "\<forall>x \<in> set xs. x ''id'' \<noteq> None \<Longrightarrow> distinct (map (\<lambda>x. x ''id'') (first_occurrences xs))"
  by (simp add: first_occurrences_keep_new keep_new_distinct)

text \<open>
  C6. On a list of records that all carry an id, \<open>deduplicate_issues\<close> returns the
  records whose id occurs at no earlier position, in input order: a subsequence of the
  input with pairwise distinct ids that covers every id of the input. Deduplicating the
  result again returns it unchanged, the result is no longer than the input, and the
  empty list gives the empty list.
\<close>

theorem deduplicate_issues_first_occurrences:
  assumes "\<forall>x \<in> set xs. x ''id'' \<noteq> None"
  shows "deduplicate_issues xs = Inr (first_occurrences xs)
       \<and> subseq (first_occurrences xs) xs
       \<and> distinct (map (\<lambda>x. x ''id'') (first_occurrences xs))
       \<and> (\<lambda>x. x ''id'') ` set (first_occurrences xs) = (\<lambda>x. x ''id'') ` set xs
       \<and> deduplicate_issues (first_occurrences xs) = Inr (first_occurrences xs)
       \<and> length (first_occurrences xs) \<le> length xs
       \<and> deduplicate_issues [] = Inr []"
proof -
  have fo: "first_occurrences xs = keep_new {} xs"
    by (rule first_occurrences_keep_new [OF assms])
  have d: "deduplicate_issues xs = Inr (first_occurrences xs)"
    by (rule deduplicate_issues_value [OF assms])
  have s: "subseq (first_occurrences xs) xs"
    unfolding fo by (rule keep_new_subseq)
  have di: "distinct (map (\<lambda>x. x ''id'') (first_occurrences xs))"
    by (rule first_occurrences_distinct [OF assms])
  have ids: "(\<lambda>x. x ''id'') ` set (first_occurrences xs) = (\<lambda>x. x ''id'') ` set xs"
    by (rule first_occurrences_ids [OF assms])
  have all: "\<forall>x \<in> set (first_occurrences xs). x ''id'' \<noteq> None"
    using assms first_occurrences_subset [OF assms] by blast
  have "keep_new {} (first_occurrences xs) = first_occurrences xs"
    by (rule keep_new_fixed [OF all di]) simp
  then have idem: "deduplicate_issues (first_occurrences xs) = Inr (first_occurrences xs)"
    unfolding deduplicate_issues_def dedup_loop_keep_new [OF all] by simp
  have len: "length (first_occurrences xs) \<le> length xs"
    using s by (rule list_emb_length)
  have e: "deduplicate_issues [] = Inr []"
    by (simp add: deduplicate_issues_def)
  from d s di ids idem len e show ?thesis by blast
qed

lemma mk_issue_fields [simp]:
  "mk_issue i c r l ''id'' = Some (JStr i)"
  "mk_issue i c r l ''created_at'' = Some c"
  "mk_issue i c r l ''resolved_at'' = Some r"
  "mk_issue i c r l ''last_seen_at'' = Some l"
  "mk_issue i c r l ''tstamp'' = None"
  by (simp_all add: mk_issue_def)

theorem deduplicate_issues_first_occurrences_witness:
  "deduplicate_issues
     [mk_issue ''A'' (JStr ''2021-01-01'') JNull JNull,
      mk_issue ''B'' (JStr ''2021-01-02'') JNull JNull,
      mk_issue ''A'' (JStr ''2021-01-03'') JNull JNull] =
   Inr [mk_issue ''A'' (JStr ''2021-01-01'') JNull JNull,
        mk_issue ''B'' (JStr ''2021-01-02'') JNull JNull]
   \<and> first_occurrences
     [mk_issue ''A'' (JStr ''2021-01-01'') JNull JNull,
      mk_issue ''B'' (JStr ''2021-01-02'') JNull JNull,
      mk_issue ''A'' (JStr ''2021-01-03'') JNull JNull] =
     [mk_issue ''A'' (JStr ''2021-01-01'') JNull JNull,
      mk_issue ''B'' (JStr ''2021-01-02'') JNull JNull]"
proof -
  let ?xs = "[mk_issue ''A'' (JStr ''2021-01-01'') JNull JNull,
      mk_issue ''B'' (JStr ''2021-01-02'') JNull JNull,
      mk_issue ''A'' (JStr ''2021-01-03'') JNull JNull]"
  have e: "deduplicate_issues ?xs =
      Inr [mk_issue ''A'' (JStr ''2021-01-01'') JNull JNull,
           mk_issue ''B'' (JStr ''2021-01-02'') JNull JNull]"
    by (simp add: deduplicate_issues_def)
  have "\<forall>x \<in> set ?xs. x ''id'' \<noteq> None" by simp
  from deduplicate_issues_first_occurrences [OF this]
  have "deduplicate_issues ?xs = Inr (first_occurrences ?xs)" by blast
  with e show ?thesis by simp
qed

section \<open>The worked example\<close>

text \<open>
  C7. The two records of the example, both with id \<open>A\<close>: labelling gives them the
  tstamps \<open>2020-03-01\<close> and \<open>2020-04-01\<close>, and deduplicating the labelled list leaves
  one record, the first, with tstamp \<open>2020-03-01\<close>.
\<close>

theorem example_label_then_dedupe:
  "map_err time_label_issue
     [mk_issue ''A'' (JStr ''2020-01-01'') JNull (JStr ''2020-03-01''),
      mk_issue ''A'' (JStr ''2020-01-01'') (JStr ''2020-04-01'') JNull] =
   Inr [(mk_issue ''A'' (JStr ''2020-01-01'') JNull (JStr ''2020-03-01''))
          (''tstamp'' \<mapsto> JStr ''2020-03-01''),
        (mk_issue ''A'' (JStr ''2020-01-01'') (JStr ''2020-04-01'') JNull)
          (''tstamp'' \<mapsto> JStr ''2020-04-01'')]
   \<and> deduplicate_issues
     [(mk_issue ''A'' (JStr ''2020-01-01'') JNull (JStr ''2020-03-01''))
        (''tstamp'' \<mapsto> JStr ''2020-03-01''),
      (mk_issue ''A'' (JStr ''2020-01-01'') (JStr ''2020-04-01'') JNull)
        (''tstamp'' \<mapsto> JStr ''2020-04-01'')] =
   Inr [(mk_issue ''A'' (JStr ''2020-01-01'') JNull (JStr ''2020-03-01''))
          (''tstamp'' \<mapsto> JStr ''2020-03-01'')]"
proof -
  have l1: "time_label_issue (mk_issue ''A'' (JStr ''2020-01-01'') JNull (JStr ''2020-03-01'')) =
      Inr ((mk_issue ''A'' (JStr ''2020-01-01'') JNull (JStr ''2020-03-01''))
             (''tstamp'' \<mapsto> JStr ''2020-03-01''))"
    by (simp add: time_label_issue_def time_label_fields_def target_fields_def py_last_def)
  have l2: "time_label_issue (mk_issue ''A'' (JStr ''2020-01-01'') (JStr ''2020-04-01'') JNull) =
      Inr ((mk_issue ''A'' (JStr ''2020-01-01'') (JStr ''2020-04-01'') JNull)
             (''tstamp'' \<mapsto> JStr ''2020-04-01''))"
    by (simp add: time_label_issue_def time_label_fields_def target_fields_def py_last_def)
  have d: "deduplicate_issues
     [(mk_issue ''A'' (JStr ''2020-01-01'') JNull (JStr ''2020-03-01''))
        (''tstamp'' \<mapsto> JStr ''2020-03-01''),
      (mk_issue ''A'' (JStr ''2020-01-01'') (JStr ''2020-04-01'') JNull)
        (''tstamp'' \<mapsto> JStr ''2020-04-01'')] =
   Inr [(mk_issue ''A'' (JStr ''2020-01-01'') JNull (JStr ''2020-03-01''))
          (''tstamp'' \<mapsto> JStr ''2020-03-01'')]"
    by (simp add: deduplicate_issues_def)
  from l1 l2 d show ?thesis by simp
qed

section \<open>The time window\<close>

lemma filter_err_total:
  "\<forall>x \<in> set xs. c x = Inr (P x) \<Longrightarrow> filter_err c xs = Inr (filter P xs)"
  by (induction xs) auto

lemma in_window_labeled:
  "x ''tstamp'' = Some (JStr s) \<Longrightarrow> in_window cutoff x = Inr (tstamp_newer cutoff x)"
  by (simp add: in_window_def getitem_def targeted_date_def tstamp_newer_def)

lemma out_of_window_labeled:
  "x ''tstamp'' = Some (JStr s) \<Longrightarrow> out_of_window cutoff x = Inr (\<not> tstamp_newer cutoff x)"
  by (simp add: out_of_window_def getitem_def targeted_date_def tstamp_newer_def)

lemma issues_filtered_labeled:
  assumes "\<forall>x \<in> set labeled. \<exists>s. x ''tstamp'' = Some (JStr s)"
  shows "issues_filtered labeled cutoff = Inr (filter (tstamp_newer cutoff) labeled)"
  unfolding issues_filtered_def
  by (rule filter_err_total) (use assms in \<open>auto simp: in_window_labeled\<close>)

lemma discarded_issues_labeled:
  assumes "\<forall>x \<in> set labeled. \<exists>s. x ''tstamp'' = Some (JStr s)"
  shows "discarded_issues labeled cutoff = Inr (filter (\<lambda>x. \<not> tstamp_newer cutoff x) labeled)"
  unfolding discarded_issues_def
  by (rule filter_err_total) (use assms in \<open>auto simp: out_of_window_labeled\<close>)

text \<open>
  C4. On a list of labelled records (each has a string under \<open>tstamp\<close>) the two
  comprehensions of the window filter split the list: every kept record has a tstamp
  strictly above the cutoff in the lexicographic order, every discarded record has a
  tstamp at or below it (so a record at the cutoff is discarded), and the kept records
  followed by the discarded ones are a permutation of the input.
\<close>

theorem window_filter_partition:
  assumes "\<forall>x \<in> set labeled. \<exists>s. x ''tstamp'' = Some (JStr s)"
  shows "\<exists>kept discarded.
           issues_filtered labeled cutoff = Inr kept
         \<and> discarded_issues labeled cutoff = Inr discarded
         \<and> (\<forall>x \<in> set kept. \<exists>s. x ''tstamp'' = Some (JStr s) \<and> cutoff < s)
         \<and> (\<forall>x \<in> set discarded. \<exists>s. x ''tstamp'' = Some (JStr s) \<and> s \<le> cutoff)
         \<and> mset (kept @ discarded) = mset labeled"
proof -
  let ?kept = "filter (tstamp_newer cutoff) labeled"
  let ?disc = "filter (\<lambda>x. \<not> tstamp_newer cutoff x) labeled"
  have k: "\<forall>x \<in> set ?kept. \<exists>s. x ''tstamp'' = Some (JStr s) \<and> cutoff < s"
    using assms by (auto simp: tstamp_newer_def)
  have d: "\<forall>x \<in> set ?disc. \<exists>s. x ''tstamp'' = Some (JStr s) \<and> s \<le> cutoff"
    using assms by (fastforce simp: tstamp_newer_def)
  have m: "mset (?kept @ ?disc) = mset labeled"
    by simp
  from issues_filtered_labeled [OF assms] discarded_issues_labeled [OF assms] k d m
  show ?thesis by blast
qed

theorem window_filter_partition_witness:
  "issues_filtered
     [(mk_issue ''A'' JNull JNull JNull)(''tstamp'' \<mapsto> JStr ''2020-03-01''),
      (mk_issue ''B'' JNull JNull JNull)(''tstamp'' \<mapsto> JStr ''2020-02-01''),
      (mk_issue ''C'' JNull JNull JNull)(''tstamp'' \<mapsto> JStr ''2020-01-01'')] ''2020-02-01'' =
     Inr [(mk_issue ''A'' JNull JNull JNull)(''tstamp'' \<mapsto> JStr ''2020-03-01'')]
   \<and> discarded_issues
     [(mk_issue ''A'' JNull JNull JNull)(''tstamp'' \<mapsto> JStr ''2020-03-01''),
      (mk_issue ''B'' JNull JNull JNull)(''tstamp'' \<mapsto> JStr ''2020-02-01''),
      (mk_issue ''C'' JNull JNull JNull)(''tstamp'' \<mapsto> JStr ''2020-01-01'')] ''2020-02-01'' =
     Inr [(mk_issue ''B'' JNull JNull JNull)(''tstamp'' \<mapsto> JStr ''2020-02-01''),
          (mk_issue ''C'' JNull JNull JNull)(''tstamp'' \<mapsto> JStr ''2020-01-01'')]"
proof -
  let ?xs = "[(mk_issue ''A'' JNull JNull JNull)(''tstamp'' \<mapsto> JStr ''2020-03-01''),
      (mk_issue ''B'' JNull JNull JNull)(''tstamp'' \<mapsto> JStr ''2020-02-01''),
      (mk_issue ''C'' JNull JNull JNull)(''tstamp'' \<mapsto> JStr ''2020-01-01'')]"
  have "\<forall>x \<in> set ?xs. \<exists>s. x ''tstamp'' = Some (JStr s)" by simp
  from window_filter_partition [OF this, of "''2020-02-01''"]
  obtain kept discarded where
    "issues_filtered ?xs ''2020-02-01'' = Inr kept"
    "discarded_issues ?xs ''2020-02-01'' = Inr discarded"
    by blast
  moreover have "issues_filtered ?xs ''2020-02-01'' =
      Inr [(mk_issue ''A'' JNull JNull JNull)(''tstamp'' \<mapsto> JStr ''2020-03-01'')]"
    by (simp add: issues_filtered_def in_window_def getitem_def targeted_date_def)
  moreover have "discarded_issues ?xs ''2020-02-01'' =
      Inr [(mk_issue ''B'' JNull JNull JNull)(''tstamp'' \<mapsto> JStr ''2020-02-01''),
           (mk_issue ''C'' JNull JNull JNull)(''tstamp'' \<mapsto> JStr ''2020-01-01'')]"
    by (simp add: discarded_issues_def out_of_window_def getitem_def targeted_date_def)
  ultimately show ?thesis by simp
qed

section \<open>Resolving a finding\<close>

lemma bind_res_simps [simp]:
  "bind_res (l, Inl e) f = (l, Inl e)"
  "bind_res (l, Inr x) f = (l @ fst (f x), snd (f x))"
  by (simp_all add: bind_res_def split: prod.splits)

lemma parse_finding_url_no_match:
  "re_match rx_strict url = None \<Longrightarrow>
   parse_finding_url url = ([(LError, ''Unable to parse finding URL: '' @ url)], Inr None)"
  by (simp add: parse_finding_url_def logger_def return_res_def)

lemma describe_finding_scans_no_match:
  assumes "str_contains ''/scans/'' url" and "re_match rx_strict url = None"
  shows "describe_finding self url =
     ([(LError, ''Unable to parse finding URL: '' @ url)], Inl TypeError)"
  using assms
  by (simp add: describe_finding_def parse_finding_url_no_match lift_res_def)

lemma describe_finding_neither:
  assumes "\<not> str_contains ''/scans/'' url" and "\<not> str_contains ''/events/'' url"
  shows "describe_finding self url =
     ([(LError, ''Unable to determine finding type: '' @ url)], Inr None)"
  using assms
  by (simp add: describe_finding_def logger_def return_res_def)

lemma describe_finding_not_a_url:
  "describe_finding self ''not-a-url'' =
     ([(LError, ''Unable to determine finding type: not-a-url'')], Inr None)"
proof -
  have "\<not> str_contains ''/scans/'' ''not-a-url''" "\<not> str_contains ''/events/'' ''not-a-url''"
    by code_simp+
  then show ?thesis
    using describe_finding_neither [of "''not-a-url''" self] by simp
qed

text \<open>
  C1. A finding URL with neither \<open>/scans/\<close> nor \<open>/events/\<close> is logged as an error and
  answered with \<open>None\<close> (\<open>describe_finding_neither\<close>). A URL that contains \<open>/scans/\<close>
  but does not match the strict pattern is meant to be treated the same way:
  \<open>parse_finding_url\<close> does log the error and return \<open>None\<close>, but \<open>describe_finding\<close>
  unpacks that value into two names. On the URL \<open>https://x.cloudpassage.com/v1/scans/\<close>
  it logs the error and raises \<open>TypeError\<close>.
\<close>

theorem describe_finding_bad_scan_url_raises:
  "describe_finding self ''https://x.cloudpassage.com/v1/scans/'' =
     ([(LError, ''Unable to parse finding URL: https://x.cloudpassage.com/v1/scans/'')],
      Inl TypeError)"
proof -
  have c: "str_contains ''/scans/'' ''https://x.cloudpassage.com/v1/scans/''"
    by code_simp
  have m: "re_match rx_strict ''https://x.cloudpassage.com/v1/scans/'' = None"
    by code_simp
  show ?thesis
    using describe_finding_scans_no_match [OF c m] by simp
qed

lemma describe_finding_scan_example:
  "describe_finding self ''https://x.cloudpassage.com/v1/scans/AAA111/findings/BBB222'' =
     ([], map_sum id Some (http_helper_get self ''/v1/scans/AAA111/findings/BBB222''))"
proof -
  have p: "parse_finding_url ''https://x.cloudpassage.com/v1/scans/AAA111/findings/BBB222'' =
      ([], Inr (Some (JStr ''AAA111'', JStr ''BBB222'')))"
    by code_simp
  have c: "str_contains ''/scans/'' ''https://x.cloudpassage.com/v1/scans/AAA111/findings/BBB222''"
    by code_simp
  show ?thesis
    unfolding describe_finding_def
    by (cases "http_helper_get self ''/v1/scans/AAA111/findings/BBB222''")
       (simp_all only: c p if_True bind_res_simps option.case prod.case get_finding_def
          py_str_def jval.case lift_res_def return_res_def fst_conv snd_conv append.simps
          map_sum.simps id_apply)
qed

lemma str_split_not_Nil: "str_split sep s \<noteq> []"
  by (induction s) (auto split: list.splits)

lemma describe_finding_events:
  assumes "\<not> str_contains ''/scans/'' url" and "str_contains ''/events/'' url"
  shows "describe_finding self url = ([], Inl TypeError)"
proof -
  have "str_split CHR ''/'' url \<noteq> []"
    by (rule str_split_not_Nil)
  then obtain event_id where "py_last (str_split CHR ''/'' url) = Inr event_id"
    by (cases "str_split CHR ''/'' url") (simp_all add: py_last_def)
  with assms show ?thesis
    by (simp add: describe_finding_def lift_res_def cloudpassage_http_helper_def)
qed

text \<open>
  C8. On \<open>https://x.cloudpassage.com/v1/scans/AAA111/findings/BBB222\<close> the parser
  yields the scan id \<open>AAA111\<close> and the finding id \<open>BBB222\<close>, and \<open>describe_finding\<close>
  returns what the HTTP helper returns for the path
  \<open>/v1/scans/AAA111/findings/BBB222\<close>. On \<open>https://x.cloudpassage.com/v1/events/ZZZ999\<close>
  the path \<open>/v1/events/ZZZ999\<close> is meant to be fetched, but it is not: the event id
  \<open>ZZZ999\<close> is split off, and then line 74 raises \<open>TypeError\<close> before any \<open>get\<close>.
\<close>

theorem describe_finding_event_url_raises:
  "parse_finding_url ''https://x.cloudpassage.com/v1/scans/AAA111/findings/BBB222'' =
     ([], Inr (Some (JStr ''AAA111'', JStr ''BBB222'')))
   \<and> describe_finding self ''https://x.cloudpassage.com/v1/scans/AAA111/findings/BBB222'' =
     ([], map_sum id Some (http_helper_get self ''/v1/scans/AAA111/findings/BBB222''))
   \<and> py_last (str_split CHR ''/'' ''https://x.cloudpassage.com/v1/events/ZZZ999'') =
     Inr ''ZZZ999''
   \<and> describe_finding self ''https://x.cloudpassage.com/v1/events/ZZZ999'' =
     ([], Inl TypeError)"
proof -
  have p: "parse_finding_url ''https://x.cloudpassage.com/v1/scans/AAA111/findings/BBB222'' =
      ([], Inr (Some (JStr ''AAA111'', JStr ''BBB222'')))"
    by code_simp
  have n: "\<not> str_contains ''/scans/'' ''https://x.cloudpassage.com/v1/events/ZZZ999''"
    by code_simp
  have e: "str_contains ''/events/'' ''https://x.cloudpassage.com/v1/events/ZZZ999''"
    by code_simp
  have l: "py_last (str_split CHR ''/'' ''https://x.cloudpassage.com/v1/events/ZZZ999'') =
      Inr ''ZZZ999''"
    by code_simp
  have v: "describe_finding self ''https://x.cloudpassage.com/v1/events/ZZZ999'' =
      ([], Inl TypeError)"
    unfolding describe_finding_def
    by (simp only: n e l if_True if_False bind_res_simps lift_res_def
          cloudpassage_http_helper_def fst_conv snd_conv append.simps)
  from p describe_finding_scan_example [of self] l v show ?thesis by blast
qed

section \<open>The pipeline\<close>

lemma snd_bind_res_Inr:
  "snd (bind_res m f) = Inr y \<longleftrightarrow> (\<exists>x. snd m = Inr x \<and> snd (f x) = Inr y)"
  by (cases m; cases "snd m") (auto simp: bind_res_def split: prod.splits)

lemma snd_res_simps [simp]:
  "snd (lift_res r) = r"
  "snd (return_res x) = Inr x"
  "snd (logger lvl msg) = Inr ()"
  by (simp_all add: lift_res_def return_res_def logger_def)

lemma map_err_rel:
  "map_err f xs = Inr ys \<Longrightarrow> (\<And>x y. x \<in> set xs \<Longrightarrow> f x = Inr y \<Longrightarrow> g y = h x) \<Longrightarrow>
   map g ys = map h xs"
proof (induction xs arbitrary: ys)
  case Nil
  then show ?case by simp
next
  case (Cons x xs)
  from Cons.prems(1) obtain y ys' where y: "f x = Inr y" and ys': "map_err f xs = Inr ys'"
    and ys: "ys = y # ys'"
    by (auto split: sum.splits)
  have "map g ys' = map h xs"
    by (rule Cons.IH [OF ys']) (simp add: Cons.prems(2))
  moreover have "g y = h x" using y by (simp add: Cons.prems(2))
  ultimately show ?case using ys by simp
qed

lemma map_err_total:
  "\<forall>x \<in> set xs. f x = Inr (g x) \<Longrightarrow> map_err f xs = Inr (map g xs)"
  by (induction xs) auto

lemma time_label_issue_valid:
  "valid_issue x \<Longrightarrow> time_label_issue x = Inr (label_of x)"
  unfolding valid_issue_def time_label_issue_def label_of_def derived_tstamp_def
    non_null_tstamps_def
  by (rule time_label_fields_value) simp_all

lemma label_of_fields [simp]:
  "label_of x ''tstamp'' = Some (JStr (derived_tstamp x))"
  "label_of x ''id'' = x ''id''"
  by (simp_all add: label_of_def)

lemma tstamp_newer_label_of [simp]:
  "tstamp_newer cutoff (label_of x) \<longleftrightarrow> \<not> stale cutoff x"
  by (simp add: tstamp_newer_def stale_def)

lemma snd_log_discarded:
  "\<forall>d \<in> set ds. d ''id'' \<noteq> None \<and> d ''tstamp'' \<noteq> None \<Longrightarrow> snd (log_discarded ds) = Inr ()"
proof (induction ds)
  case Nil
  then show ?case by simp
next
  case (Cons d ds)
  then obtain i t where "d ''id'' = Some i" "d ''tstamp'' = Some t" by auto
  moreover from Cons have "snd (log_discarded ds) = Inr ()" by simp
  ultimately show ?case
    by (simp add: snd_bind_res_Inr getitem_def)
qed

text \<open>What \<open>get_issues_touched_since\<close> returns when both queries answer with valid
  records that carry an id.\<close>

lemma get_issues_touched_since_value:
  assumes U: "issues_list_all self (updated_query ts crit) = Inr U"
    and R: "issues_list_all self (resolved_query ts crit) = Inr R"
    and valid: "\<forall>x \<in> set (R @ U). valid_issue x \<and> x ''id'' \<noteq> None"
  shows "snd (get_issues_touched_since self ts crit) =
     Inr (first_occurrences (map label_of (filter (\<lambda>x. \<not> stale ts x) (R @ U))))"
proof -
  define A where "A = R @ U"
  define labeled where "labeled = map label_of A"
  define kept where "kept = map label_of (filter (\<lambda>x. \<not> stale ts x) A)"
  define discarded where "discarded = map label_of (filter (\<lambda>x. stale ts x) A)"
  from valid have valid_A: "\<forall>x \<in> set A. valid_issue x \<and> x ''id'' \<noteq> None"
    by (simp only: A_def)
  have lab: "map_err time_label_issue A = Inr labeled"
    unfolding labeled_def
    by (rule map_err_total) (use valid_A in \<open>simp add: time_label_issue_valid\<close>)
  have str: "\<forall>x \<in> set labeled. \<exists>s. x ''tstamp'' = Some (JStr s)"
    by (auto simp: labeled_def)
  have "filter (tstamp_newer ts) labeled = kept"
    by (simp add: kept_def labeled_def filter_map comp_def)
  with issues_filtered_labeled [OF str, of ts]
  have k: "issues_filtered labeled ts = Inr kept"
    by simp
  have "filter (\<lambda>x. \<not> tstamp_newer ts x) labeled = discarded"
    by (simp add: discarded_def labeled_def filter_map comp_def)
  with discarded_issues_labeled [OF str, of ts]
  have d: "discarded_issues labeled ts = Inr discarded"
    by simp
  have logd: "snd (log_discarded discarded) = Inr ()"
    by (rule snd_log_discarded) (use valid_A in \<open>auto simp: discarded_def\<close>)
  have "\<forall>x \<in> set kept. x ''id'' \<noteq> None"
    using valid_A by (auto simp: kept_def)
  then have dd: "deduplicate_issues kept = Inr (first_occurrences kept)"
    by (rule deduplicate_issues_value)
  have "snd (get_issues_touched_since self ts crit) = Inr (first_occurrences kept)"
    unfolding get_issues_touched_since_def
    by (simp add: snd_bind_res_Inr U R A_def [symmetric] lab k d logd dd Let_def)
  then show ?thesis
    by (simp only: kept_def A_def)
qed

lemma ids_of_filterD: "v \<in> ids_of (filter P xs) \<Longrightarrow> \<exists>x \<in> set xs. P x \<and> x ''id'' = v"
  by (auto simp: ids_of_def)

lemma ids_ofI: "x \<in> set xs \<Longrightarrow> x ''id'' \<in> ids_of xs"
  by (simp add: ids_of_def)

lemma ids_of_label_of [simp]: "ids_of (map label_of xs) = ids_of xs"
  by (auto simp: ids_of_def image_iff)

text \<open>What \<open>describe_all_issues\<close> returns when, in addition, every id is fetched as a
  valid record and the pool has at least one thread: one labelled record for each
  distinct id among the records that are not stale.\<close>

lemma describe_all_issues_count:
  assumes U: "issues_list_all self (updated_query ts crit) = Inr U"
    and R: "issues_list_all self (resolved_query ts crit) = Inr R"
    and valid: "\<forall>x \<in> set (R @ U). valid_issue x \<and> x ''id'' \<noteq> None"
    and get: "\<forall>x \<in> set (R @ U). \<forall>i. x ''id'' = Some i \<longrightarrow>
      (\<exists>r. issues_describe self i = Inr r \<and> valid_issue r)"
    and threads: "1 \<le> describe_issues_threads self"
    and perm: "\<forall>xs. mset (set_order xs) = mset xs"
  shows "\<exists>out. snd (describe_all_issues self set_order ts crit) = Inr out
     \<and> length out = card (ids_of (filter (\<lambda>x. \<not> stale ts x) (R @ U)))
     \<and> (\<forall>r \<in> set out. \<exists>s. r ''tstamp'' = Some (JStr s))"
proof -
  define kept where "kept = map label_of (filter (\<lambda>x. \<not> stale ts x) (R @ U))"
  define touched where "touched = first_occurrences kept"
  define ids where "ids = map (\<lambda>x. the (x ''id'')) touched"
  define all_issue_ids where "all_issue_ids = set_order (remdups ids)"
  define results where "results = map (\<lambda>i. projr (issues_describe self i)) all_issue_ids"
  define out where "out = map label_of results"
  have t: "snd (get_issues_touched_since self ts crit) = Inr touched"
    unfolding touched_def kept_def by (rule get_issues_touched_since_value [OF U R valid])
  have kept_id: "\<forall>x \<in> set kept. x ''id'' \<noteq> None"
    using valid by (auto simp: kept_def)
  have touched_id: "\<forall>x \<in> set touched. x ''id'' \<noteq> None"
    using kept_id first_occurrences_subset [OF kept_id] unfolding touched_def by blast
  have i: "map_err (\<lambda>x. getitem x ''id'') touched = Inr ids"
    unfolding ids_def
    by (rule map_err_total) (use touched_id in \<open>auto simp: getitem_def\<close>)
  have "map Some ids = map (\<lambda>x. x ''id'') touched"
    unfolding ids_def using touched_id by auto
  then have "Some ` set ids = ids_of touched"
    unfolding ids_of_def by (metis list.set_map)
  also have "\<dots> = ids_of kept"
    unfolding ids_of_def touched_def by (rule first_occurrences_ids [OF kept_id])
  also have "\<dots> = ids_of (filter (\<lambda>x. \<not> stale ts x) (R @ U))"
    unfolding kept_def by (simp only: ids_of_label_of)
  finally have ids_set: "Some ` set ids = ids_of (filter (\<lambda>x. \<not> stale ts x) (R @ U))" .
  from perm have m: "mset all_issue_ids = mset (remdups ids)"
    by (simp add: all_issue_ids_def)
  then have set_all: "set all_issue_ids = set ids"
    by (metis mset_eq_setD set_remdups)
  from m have "length all_issue_ids = length (remdups ids)"
    by (rule mset_eq_length)
  also have "\<dots> = card (set ids)"
    by (simp add: length_remdups_card_conv)
  also have "\<dots> = card (Some ` set ids)"
    by (simp add: card_image)
  finally have len: "length all_issue_ids = card (ids_of (filter (\<lambda>x. \<not> stale ts x) (R @ U)))"
    by (simp only: ids_set)
  have fetched: "\<exists>r. issues_describe self i = Inr r \<and> valid_issue r" if "i \<in> set all_issue_ids" for i
  proof -
    from that have "Some i \<in> ids_of (filter (\<lambda>x. \<not> stale ts x) (R @ U))"
      using set_all ids_set by blast
    from ids_of_filterD [OF this] have "\<exists>x \<in> set (R @ U). x ''id'' = Some i"
      by blast
    with get show ?thesis by blast
  qed
  have fetched': "issues_describe self i = Inr (projr (issues_describe self i))
      \<and> valid_issue (projr (issues_describe self i))" if "i \<in> set all_issue_ids" for i
  proof -
    from fetched [OF that] obtain r where "issues_describe self i = Inr r" "valid_issue r"
      by blast
    then show ?thesis by simp
  qed
  have p: "thread_pool (describe_issues_threads self) = Inr ()"
    using threads by (simp add: thread_pool_def)
  have r: "map_err (get_issue_full self) all_issue_ids = Inr results"
    unfolding results_def
    by (rule map_err_total) (use fetched' in \<open>simp add: get_issue_full_def\<close>)
  have results_valid: "\<forall>x \<in> set results. valid_issue x"
    using fetched' by (simp add: results_def)
  have l: "map_err time_label_issue results = Inr out"
    unfolding out_def
    by (rule map_err_total) (use results_valid in \<open>simp add: time_label_issue_valid\<close>)
  have "snd (describe_all_issues self set_order ts crit) = Inr out"
    unfolding describe_all_issues_def
    by (simp add: snd_bind_res_Inr t i all_issue_ids_def [symmetric] p r l Let_def)
  moreover have "length out = card (ids_of (filter (\<lambda>x. \<not> stale ts x) (R @ U)))"
    using len by (simp add: out_def results_def)
  moreover have "\<forall>r \<in> set out. \<exists>s. r ''tstamp'' = Some (JStr s)"
    by (auto simp: out_def)
  ultimately show ?thesis by blast
qed

text \<open>Counting the ids that survive: three and two records, one id in common, one
  stale record whose id is not the common one.\<close>

lemma fresh_ids_count:
  assumes lenU: "length U = 3" and lenR: "length R = 2"
    and dU: "distinct (map (\<lambda>x. x ''id'') U)" and dR: "distinct (map (\<lambda>x. x ''id'') R)"
    and ov: "card (ids_of U \<inter> ids_of R) = 1"
    and st: "length (filter (stale ts) (R @ U)) = 1"
    and sep: "\<forall>x \<in> set (R @ U). stale ts x \<longrightarrow> x ''id'' \<notin> ids_of U \<inter> ids_of R"
  shows "card (ids_of (filter (\<lambda>x. \<not> stale ts x) (R @ U))) = 3"
proof -
  have cU: "card (ids_of U) = 3"
    using distinct_card [OF dU] lenU by (simp add: ids_of_def)
  have cR: "card (ids_of R) = 2"
    using distinct_card [OF dR] lenR by (simp add: ids_of_def)
  have un: "ids_of (R @ U) = ids_of U \<union> ids_of R"
    by (auto simp: ids_of_def)
  have fin: "finite (ids_of U)" "finite (ids_of R)"
    by (simp_all add: ids_of_def)
  from card_Un_Int [OF fin] cU cR ov have cA: "card (ids_of (R @ U)) = 4"
    unfolding un by simp
  from st obtain s where s: "filter (stale ts) (R @ U) = [s]"
    by (cases "filter (stale ts) (R @ U)") (auto simp del: filter_append)
  then have "set (filter (stale ts) (R @ U)) = {s}" by (simp del: filter_append)
  then have s_in: "s \<in> set (R @ U)" and s_stale: "stale ts s"
    and only: "\<And>x. x \<in> set (R @ U) \<Longrightarrow> stale ts x \<Longrightarrow> x = s"
    by auto
  from sep s_in s_stale have s_sep: "s ''id'' \<notin> ids_of U \<inter> ids_of R" by blast
  have injU: "inj_on (\<lambda>x. x ''id'') (set U)" using dU by (simp add: distinct_map)
  have injR: "inj_on (\<lambda>x. x ''id'') (set R)" using dR by (simp add: distinct_map)
  have key: "ids_of (filter (\<lambda>x. \<not> stale ts x) (R @ U)) = ids_of (R @ U) - {s ''id''}"
  proof (rule set_eqI, rule iffI)
    fix v
    assume "v \<in> ids_of (filter (\<lambda>x. \<not> stale ts x) (R @ U))"
    then obtain x where x: "x \<in> set (R @ U)" "\<not> stale ts x" "v = x ''id''"
      by (auto simp: ids_of_def)
    have "x ''id'' \<noteq> s ''id''"
    proof
      assume eq: "x ''id'' = s ''id''"
      from x s_stale have ne: "x \<noteq> s" by auto
      from x(1) s_in consider "x \<in> set U" "s \<in> set U" | "x \<in> set R" "s \<in> set R"
        | "x \<in> set U" "s \<in> set R" | "x \<in> set R" "s \<in> set U"
        by auto
      then show False
      proof cases
        case 1
        with injU eq ne show False by (auto dest: inj_onD)
      next
        case 2
        with injR eq ne show False by (auto dest: inj_onD)
      next
        case 3
        then have "s ''id'' \<in> ids_of U \<inter> ids_of R"
          using eq ids_ofI [of x U] ids_ofI [of s R] by simp
        with s_sep show False by simp
      next
        case 4
        then have "s ''id'' \<in> ids_of U \<inter> ids_of R"
          using eq ids_ofI [of s U] ids_ofI [of x R] by simp
        with s_sep show False by simp
      qed
    qed
    with x show "v \<in> ids_of (R @ U) - {s ''id''}"
      by (auto simp: ids_of_def)
  next
    fix v
    assume "v \<in> ids_of (R @ U) - {s ''id''}"
    then obtain y where y: "y \<in> set (R @ U)" "v = y ''id''" "y ''id'' \<noteq> s ''id''"
      by (auto simp: ids_of_def)
    then have "\<not> stale ts y" using only by auto
    with y show "v \<in> ids_of (filter (\<lambda>x. \<not> stale ts x) (R @ U))"
      by (auto simp: ids_of_def)
  qed
  have "s ''id'' \<in> ids_of (R @ U)"
    using s_in by (auto simp: ids_of_def)
  then have "card (ids_of (R @ U) - {s ''id''}) = 3"
    using cA by simp
  with key show ?thesis by simp
qed

section \<open>The mocked source\<close>

lemma mock_source_queries [simp]:
  "issues_list_all (mock_source U R) (updated_query ts crit) = Inr U"
  "issues_list_all (mock_source U R) (resolved_query ts crit) = Inr R"
  "issues_describe (mock_source U R) = mock_describe"
  "describe_issues_threads (mock_source U R) = 5"
  by (simp_all add: mock_source_def updated_query_def resolved_query_def)

lemma valid_mk_issue [simp]:
  "valid_issue (mk_issue i c r l) \<longleftrightarrow> c \<noteq> JNull \<or> r \<noteq> JNull \<or> l \<noteq> JNull"
proof -
  have "v \<noteq> JNull \<longleftrightarrow> (\<exists>s. v = JStr s)" for v
    by (cases v) simp_all
  then show ?thesis
    by (simp add: valid_issue_def target_fields_def)
qed

lemma mock_describe_valid:
  "\<exists>r. mock_describe (JStr s) = Inr r \<and> valid_issue r"
  by (simp add: mock_describe_def)

lemma mock_describe_id:
  "mock_describe i = Inr r \<Longrightarrow> r ''id'' = Some i"
  by (cases i) (auto simp: mock_describe_def)

lemma non_null_tstamps_mk_issue:
  "non_null_tstamps (mk_issue i c r l) =
     (case c of JNull \<Rightarrow> {} | JStr s \<Rightarrow> {s}) \<union> (case r of JNull \<Rightarrow> {} | JStr s \<Rightarrow> {s})
       \<union> (case l of JNull \<Rightarrow> {} | JStr s \<Rightarrow> {s})"
  by (auto simp: non_null_tstamps_def target_fields_def split: jval.splits)

lemma stale_examples:
  "\<not> stale ''2020-02-01'' (mk_issue ''A'' (JStr ''2020-01-01'') JNull (JStr ''2020-03-01''))"
  "\<not> stale ''2020-02-01'' (mk_issue ''B'' (JStr ''2020-01-05'') JNull (JStr ''2020-02-10''))"
  "stale ''2020-02-01'' (mk_issue ''C'' (JStr ''2020-01-10'') JNull (JStr ''2020-01-20''))"
  "\<not> stale ''2020-02-01'' (mk_issue ''D'' (JStr ''2020-01-02'') (JStr ''2020-02-20'') (JStr ''2020-02-15''))"
  "stale ''2020-02-01'' (mk_issue ''A'' (JStr ''2020-01-01'') JNull (JStr ''2020-02-01''))"
  "\<not> stale ''2020-02-01'' (mk_issue ''C'' (JStr ''2020-01-10'') JNull (JStr ''2020-02-12''))"
  "\<not> stale ''2020-02-01'' (mk_issue ''A'' (JStr ''2020-01-01'') (JStr ''2020-02-03'') (JStr ''2020-02-01''))"
  by (simp_all add: stale_def derived_tstamp_def non_null_tstamps_mk_issue)

text \<open>
  C5. Whatever the cutoff and the \<open>critical_only\<close> flag, if fetching an id returns a
  record with that id, then no two records of the list that \<open>describe_all_issues\<close>
  returns have the same id. The ids are listed from a set, in any order.
\<close>

theorem describe_all_issues_distinct_ids:
  assumes perm: "\<forall>xs. mset (set_order xs) = mset xs"
    and get: "\<forall>i r. issues_describe self i = Inr r \<longrightarrow> r ''id'' = Some i"
    and out: "snd (describe_all_issues self set_order ts crit) = Inr out"
  shows "distinct (map (\<lambda>r. r ''id'') out)"
proof -
  from out obtain ids results where
    r: "map_err (get_issue_full self) (set_order (remdups ids)) = Inr results"
    and l: "map_err time_label_issue results = Inr out"
    by (auto simp: describe_all_issues_def snd_bind_res_Inr Let_def)
  have "map (\<lambda>r. r ''id'') out = map (\<lambda>r. r ''id'') results"
  proof (rule map_err_rel [OF l])
    fix x y
    assume "time_label_issue x = Inr y"
    from time_label_issue_Inr [OF this] show "y ''id'' = x ''id''" by auto
  qed
  also have "\<dots> = map Some (set_order (remdups ids))"
    by (rule map_err_rel [OF r]) (use get in \<open>simp add: get_issue_full_def\<close>)
  finally have "map (\<lambda>r. r ''id'') out = map Some (set_order (remdups ids))" .
  moreover from perm have "mset (set_order (remdups ids)) = mset (remdups ids)"
    by simp
  then have "distinct (set_order (remdups ids))"
    by (metis distinct_remdups mset_eq_imp_distinct_iff)
  ultimately show ?thesis
    by (simp add: distinct_map)
qed

theorem describe_all_issues_distinct_ids_witness:
  "map_sum id (\<lambda>out. distinct (map (\<lambda>r. r ''id'') out))
     (snd (describe_all_issues (mock_source example_updated example_resolved) id
        ''2020-02-01'' True)) = Inr True"
proof -
  let ?self = "mock_source example_updated example_resolved"
  have perm: "\<forall>xs :: jval list. mset (id xs) = mset xs"
    by simp
  have get: "\<forall>i r. issues_describe ?self i = Inr r \<longrightarrow> r ''id'' = Some i"
    by (simp add: mock_describe_id)
  have "\<exists>out. snd (describe_all_issues ?self id ''2020-02-01'' True) = Inr out
     \<and> length out = card (ids_of (filter (\<lambda>x. \<not> stale ''2020-02-01'' x)
         (example_resolved @ example_updated)))
     \<and> (\<forall>r \<in> set out. \<exists>s. r ''tstamp'' = Some (JStr s))"
    by (rule describe_all_issues_count)
      (simp_all add: example_updated_def example_resolved_def mock_describe_valid)
  then obtain out where out: "snd (describe_all_issues ?self id ''2020-02-01'' True) = Inr out"
    by blast
  from describe_all_issues_distinct_ids [OF perm get out] out show ?thesis
    by simp
qed

text \<open>
  C9. A source answers the query for active issues with three records and the query for
  resolved issues with two, all valid and with an id, the ids distinct within each
  answer; one id is in both answers; one record has a derived timestamp that is not
  strictly newer than the cutoff, and its id is not the one in both answers; every id
  is fetched as a valid record, and the pool has at least one thread. Then
  \<open>describe_all_issues\<close> returns three records, each with a \<open>tstamp\<close>.
\<close>

theorem describe_all_issues_three_records:
  assumes U: "issues_list_all self (updated_query ts crit) = Inr U" and lenU: "length U = 3"
    and R: "issues_list_all self (resolved_query ts crit) = Inr R" and lenR: "length R = 2"
    and valid: "\<forall>x \<in> set (R @ U). valid_issue x \<and> x ''id'' \<noteq> None"
    and dU: "distinct (map (\<lambda>x. x ''id'') U)" and dR: "distinct (map (\<lambda>x. x ''id'') R)"
    and ov: "card (ids_of U \<inter> ids_of R) = 1"
    and st: "length (filter (stale ts) (R @ U)) = 1"
    and sep: "\<forall>x \<in> set (R @ U). stale ts x \<longrightarrow> x ''id'' \<notin> ids_of U \<inter> ids_of R"
    and get: "\<forall>x \<in> set (R @ U). \<forall>i. x ''id'' = Some i \<longrightarrow>
      (\<exists>r. issues_describe self i = Inr r \<and> valid_issue r)"
    and threads: "1 \<le> describe_issues_threads self"
    and perm: "\<forall>xs. mset (set_order xs) = mset xs"
  shows "\<exists>out. snd (describe_all_issues self set_order ts crit) = Inr out
     \<and> length out = 3
     \<and> (\<forall>r \<in> set out. \<exists>s. r ''tstamp'' = Some (JStr s))"
  using describe_all_issues_count [OF U R valid get threads perm]
    fresh_ids_count [OF lenU lenR dU dR ov st sep]
  by simp

theorem describe_all_issues_three_records_witness:
  "map_sum id length
     (snd (describe_all_issues (mock_source example_updated example_resolved) id
        ''2020-02-01'' True)) = Inr 3"
proof -
  let ?self = "mock_source example_updated example_resolved"
  have "\<exists>out. snd (describe_all_issues ?self id ''2020-02-01'' True) = Inr out
     \<and> length out = 3
     \<and> (\<forall>r \<in> set out. \<exists>s. r ''tstamp'' = Some (JStr s))"
  proof (rule describe_all_issues_three_records [where U = example_updated and R = example_resolved])
    show "issues_list_all ?self (updated_query ''2020-02-01'' True) = Inr example_updated"
      by simp
    show "issues_list_all ?self (resolved_query ''2020-02-01'' True) = Inr example_resolved"
      by simp
    show "length example_updated = 3" "length example_resolved = 2"
      by (simp_all add: example_updated_def example_resolved_def)
    show "\<forall>x \<in> set (example_resolved @ example_updated). valid_issue x \<and> x ''id'' \<noteq> None"
      by (simp add: example_updated_def example_resolved_def)
    show "distinct (map (\<lambda>x. x ''id'') example_updated)"
      "distinct (map (\<lambda>x. x ''id'') example_resolved)"
      by (simp_all add: example_updated_def example_resolved_def)
    show "card (ids_of example_updated \<inter> ids_of example_resolved) = 1"
      by (simp add: example_updated_def example_resolved_def ids_of_def)
    show "length (filter (stale ''2020-02-01'') (example_resolved @ example_updated)) = 1"
      by (simp add: example_updated_def example_resolved_def stale_examples)
    show "\<forall>x \<in> set (example_resolved @ example_updated).
        stale ''2020-02-01'' x \<longrightarrow> x ''id'' \<notin> ids_of example_updated \<inter> ids_of example_resolved"
      by (simp add: example_updated_def example_resolved_def stale_examples ids_of_def)
    show "\<forall>x \<in> set (example_resolved @ example_updated). \<forall>i. x ''id'' = Some i \<longrightarrow>
        (\<exists>r. issues_describe ?self i = Inr r \<and> valid_issue r)"
      by (simp add: example_updated_def example_resolved_def mock_describe_valid)
    show "1 \<le> describe_issues_threads ?self"
      by simp
    show "\<forall>xs :: jval list. mset (id xs) = mset xs"
      by simp
  qed
  then show ?thesis by auto
qed

text \<open>
  Without the separation of the stale record from the common id the count is not three:
  with the boundary lists the answers have three and two records, one id in common and
  one stale record, and four records are returned.
\<close>

theorem describe_all_issues_boundary_counterexample:
  "issues_list_all (mock_source boundary_updated boundary_resolved)
       (updated_query ''2020-02-01'' True) = Inr boundary_updated
   \<and> length boundary_updated = 3
   \<and> issues_list_all (mock_source boundary_updated boundary_resolved)
       (resolved_query ''2020-02-01'' True) = Inr boundary_resolved
   \<and> length boundary_resolved = 2
   \<and> card (ids_of boundary_updated \<inter> ids_of boundary_resolved) = 1
   \<and> length (filter (stale ''2020-02-01'') (boundary_resolved @ boundary_updated)) = 1
   \<and> map_sum id length
       (snd (describe_all_issues (mock_source boundary_updated boundary_resolved) id
          ''2020-02-01'' True)) = Inr 4"
proof -
  let ?self = "mock_source boundary_updated boundary_resolved"
  have "\<exists>out. snd (describe_all_issues ?self id ''2020-02-01'' True) = Inr out
     \<and> length out = card (ids_of (filter (\<lambda>x. \<not> stale ''2020-02-01'' x)
         (boundary_resolved @ boundary_updated)))
     \<and> (\<forall>r \<in> set out. \<exists>s. r ''tstamp'' = Some (JStr s))"
    by (rule describe_all_issues_count)
      (simp_all add: boundary_updated_def boundary_resolved_def mock_describe_valid)
  moreover have "card (ids_of (filter (\<lambda>x. \<not> stale ''2020-02-01'' x)
      (boundary_resolved @ boundary_updated))) = 4"
    by (simp add: boundary_updated_def boundary_resolved_def stale_examples ids_of_def)
  ultimately have "map_sum id length
      (snd (describe_all_issues ?self id ''2020-02-01'' True)) = Inr 4"
    by auto
  moreover have "card (ids_of boundary_updated \<inter> ids_of boundary_resolved) = 1"
    by (simp add: boundary_updated_def boundary_resolved_def ids_of_def)
  moreover have "length (filter (stale ''2020-02-01'') (boundary_resolved @ boundary_updated)) = 1"
    by (simp add: boundary_updated_def boundary_resolved_def stale_examples)
  moreover have "length boundary_updated = 3" "length boundary_resolved = 2"
    by (simp_all add: boundary_updated_def boundary_resolved_def)
  ultimately show ?thesis by simp
qed

end
